theory Spec2Isabelle
  imports Complex_Main
begin

section \<open>Python values used by \<open>main.py\<close>\<close>

text \<open>
  A Python \<open>str\<close> is modelled as a \<open>string\<close>: a list of code points below 256.
  An exception is a value; a function that may raise returns \<open>exn + 'a\<close>, with
  \<open>Inl\<close> for the raised exception. The class of an exception is exact; the message of an
  exception raised by the interpreter itself is abbreviated.
\<close>

datatype exn = ValueError string | IndexError string | OSError string

subsection \<open>\<open>str\<close> methods\<close>

text \<open>Code points below 256 for which \<open>str.isspace\<close> holds; \<open>str.strip()\<close> removes them.\<close>

definition py_isspace :: "char \<Rightarrow> bool" where
  "py_isspace c \<longleftrightarrow>
     c \<in> set [CHR 0x09, CHR 0x0A, CHR 0x0B, CHR 0x0C, CHR 0x0D, CHR 0x1C, CHR 0x1D,
              CHR 0x1E, CHR 0x1F, CHR 0x20, CHR 0x85, CHR 0xA0]"

definition str_strip :: "string \<Rightarrow> string" where
  "str_strip s = rev (dropWhile py_isspace (rev (dropWhile py_isspace s)))"

text \<open>\<open>s.rstrip(chars)\<close>: trailing characters that occur in \<open>chars\<close> are removed.\<close>

definition str_rstrip :: "string \<Rightarrow> string \<Rightarrow> string" where
  "str_rstrip chars s = rev (dropWhile (\<lambda>c. c \<in> set chars) (rev s))"

definition str_startswith :: "string \<Rightarrow> string \<Rightarrow> bool" where
  "str_startswith s p \<longleftrightarrow> take (length p) s = p"

definition str_endswith :: "string \<Rightarrow> string \<Rightarrow> bool" where
  "str_endswith s p \<longleftrightarrow> length p \<le> length s \<and> drop (length s - length p) s = p"

text \<open>\<open>s.split(sep)\<close> for a separator of one character: never the empty list.\<close>

fun str_split :: "char \<Rightarrow> string \<Rightarrow> string list" where
  "str_split sep [] = [] # []"
| "str_split sep (c # cs) =
     (if c = sep then [] # str_split sep cs
      else (case str_split sep cs of
              [] \<Rightarrow> [c] # []
            | w # ws \<Rightarrow> (c # w) # ws))"

subsection \<open>\<open>int(str)\<close>\<close>

text \<open>
  CPython's \<open>int\<close> on a \<open>str\<close>, base 10. A non-ASCII space becomes a blank, then blanks of
  the C locale are skipped at both ends; an optional sign; digits, where one underscore may
  stand between two digits. More than \<open>int_max_str_digits\<close> digits are refused (the
  interpreter's default limit). Every failure is a \<open>ValueError\<close>.
\<close>

definition int_max_str_digits :: nat where
  "int_max_str_digits = 4300"

definition int_blank :: "char \<Rightarrow> bool" where
  "int_blank c \<longleftrightarrow>
     c \<in> set [CHR 0x09, CHR 0x0A, CHR 0x0B, CHR 0x0C, CHR 0x0D, CHR 0x20, CHR 0x85, CHR 0xA0]"

definition is_digit :: "char \<Rightarrow> bool" where
  "is_digit c \<longleftrightarrow> (48 :: nat) \<le> of_char c \<and> of_char c \<le> (57 :: nat)"

definition digit_val :: "char \<Rightarrow> nat" where
  "digit_val c = of_char c - (48 :: nat)"

text \<open>The flag says whether the previous character was a digit.\<close>

fun dec_digits :: "nat \<Rightarrow> bool \<Rightarrow> string \<Rightarrow> nat option" where
  "dec_digits acc prev [] = (if prev then Some acc else None)"
| "dec_digits acc prev (c # cs) =
     (if is_digit c then dec_digits (acc * 10 + digit_val c) True cs
      else if c = CHR ''_'' \<and> prev then dec_digits acc False cs
      else None)"

definition py_int :: "string \<Rightarrow> exn + int" where
  "py_int s =
     (let body = rev (dropWhile int_blank (rev (dropWhile int_blank s)));
          neg = (body \<noteq> [] \<and> hd body = CHR ''-'');
          ds = (if body \<noteq> [] \<and> (hd body = CHR ''-'' \<or> hd body = CHR ''+'') then tl body else body)
      in case dec_digits 0 False ds of
           None \<Rightarrow> Inl (ValueError ''invalid literal for int() with base 10'')
         | Some n \<Rightarrow>
             if int_max_str_digits < length (filter is_digit ds)
             then Inl (ValueError ''Exceeds the limit for integer string conversion'')
             else Inr (if neg then - int n else int n))"

section \<open>\<open>time_to_seconds\<close>\<close>

text \<open>
  \<open>h, m, s = map(int, time_str.split(":"))\<close>: \<open>map\<close> is lazy, so \<open>int\<close> runs on a component
  only when the unpacking asks for it, and the unpacking asks for a fourth value to see
  that there is none. The list holds the outcome of \<open>int\<close> on each component, and is read
  from the left up to the first exception.
\<close>

fun unpack3 :: "(exn + int) list \<Rightarrow> exn + int \<times> int \<times> int" where
  "unpack3 [] = Inl (ValueError ''not enough values to unpack (expected 3, got 0)'')"
| "unpack3 (Inl e # _) = Inl e"
| "unpack3 [Inr h] = Inl (ValueError ''not enough values to unpack (expected 3, got 1)'')"
| "unpack3 (Inr h # Inl e # _) = Inl e"
| "unpack3 [Inr h, Inr m] = Inl (ValueError ''not enough values to unpack (expected 3, got 2)'')"
| "unpack3 (Inr h # Inr m # Inl e # _) = Inl e"
| "unpack3 [Inr h, Inr m, Inr s] = Inr (h, m, s)"
| "unpack3 (Inr h # Inr m # Inr s # Inl e # _) = Inl e"
| "unpack3 (Inr h # Inr m # Inr s # Inr _ # _) =
     Inl (ValueError ''too many values to unpack (expected 3)'')"

definition time_to_seconds :: "string \<Rightarrow> exn + int" where
  "time_to_seconds time_str =
     (case unpack3 (map py_int (str_split CHR '':'' time_str)) of
        Inr (h, m, s) \<Rightarrow> Inr (h * 3600 + m * 60 + s)
      | Inl (ValueError _) \<Rightarrow> Inl (ValueError ''Invalid time format. Use hh:mm:ss.'')
      | Inl e \<Rightarrow> Inl e)"

section \<open>Python numbers in \<open>filter_segments\<close>\<close>

text \<open>
  \<open>total_time\<close> starts as the \<open>int\<close> 0 and becomes a \<open>float\<close> with the first
  \<open>total_time += duration\<close>. Binary floating point is not modelled: the type \<open>'f\<close> of
  float values and the four operations the filter uses on them are parameters, so what is
  proved of the filter holds whatever these operations compute.
\<close>

record 'f float_ops =
  py_float :: "string \<Rightarrow> 'f option"
  float_of_int :: "int \<Rightarrow> 'f"
  float_add :: "'f \<Rightarrow> 'f \<Rightarrow> 'f"
  float_ge_int :: "'f \<Rightarrow> int \<Rightarrow> bool"

text \<open>
  \<open>py_float fl s\<close> is \<open>float(s)\<close>, \<open>None\<close> when it raises \<open>ValueError\<close>;
  \<open>float_of_int fl n\<close> is the conversion of the \<open>int\<close> operand of a mixed addition;
  \<open>float_add fl x y\<close> is \<open>x + y\<close>; \<open>float_ge_int fl x n\<close> is \<open>x >= n\<close> for an \<open>int\<close> n.
\<close>

datatype 'f number = PyInt int | PyFloat 'f

fun num_ge :: "'f float_ops \<Rightarrow> 'f number \<Rightarrow> int \<Rightarrow> bool" where
  "num_ge fl (PyInt a) n = (n \<le> a)"
| "num_ge fl (PyFloat x) n = float_ge_int fl x n"

fun num_add :: "'f float_ops \<Rightarrow> 'f number \<Rightarrow> 'f \<Rightarrow> 'f number" where
  "num_add fl (PyInt a) d = PyFloat (float_add fl (float_of_int fl a) d)"
| "num_add fl (PyFloat x) d = PyFloat (float_add fl x d)"

section \<open>\<open>filter_segments\<close>\<close>

text \<open>\<open>float(line.split(":")[1].rstrip(","))\<close>, for the stripped line.\<close>

definition extinf_duration :: "'f float_ops \<Rightarrow> string \<Rightarrow> exn + 'f" where
  "extinf_duration fl line =
     (let parts = str_split CHR '':'' line in
      if length parts < 2 then Inl (IndexError ''list index out of range'')
      else case py_float fl (str_rstrip '','' (parts ! 1)) of
             None \<Rightarrow> Inl (ValueError ''could not convert string to float'')
           | Some duration \<Rightarrow> Inr duration)"

record 'f locals =
  total_time :: "'f number"
  inside_range :: bool
  result :: "string list"
  add_start :: bool

text \<open>The two statements that end the loop body (\<open>if add_start\<close>, \<open>if inside_range and ...\<close>).\<close>

definition body_end :: "'f locals \<Rightarrow> string \<Rightarrow> 'f locals" where
  "body_end st line =
     (let st1 = (if add_start st then st\<lparr>result := result st @ [line]\<rparr> else st)
      in if inside_range st1 \<and> str_endswith line ''.ts''
         then st1\<lparr>result := result st1 @ [line]\<rparr> else st1)"

text \<open>
  The \<open>for\<close> loop over the lines that are left. \<open>break\<close> returns the locals as they are; an
  exception of the duration parse leaves the function.
\<close>

fun for_loop :: "'f float_ops \<Rightarrow> int \<Rightarrow> int \<Rightarrow> 'f locals \<Rightarrow> string list \<Rightarrow> exn + 'f locals" where
  "for_loop fl start_seconds end_seconds st [] = Inr st"
| "for_loop fl start_seconds end_seconds st (raw # rest) =
     (let line = str_strip raw in
      if str_startswith line ''#EXTINF'' then
        (let st1 = st\<lparr>add_start := False\<rparr> in
         case extinf_duration fl line of
           Inl e \<Rightarrow> Inl e
         | Inr duration \<Rightarrow>
             let st2 = (if num_ge fl (total_time st1) start_seconds
                        then st1\<lparr>inside_range := True\<rparr> else st1)
             in if num_ge fl (total_time st2) end_seconds then Inr st2
                else
                  let st3 = st2\<lparr>total_time := num_add fl (total_time st2) duration\<rparr>;
                      st4 = (if inside_range st3 then st3\<lparr>result := result st3 @ [line]\<rparr>
                             else st3)
                  in for_loop fl start_seconds end_seconds (body_end st4 line) rest)
      else for_loop fl start_seconds end_seconds (body_end st line) rest)"

definition filter_segments :: "'f float_ops \<Rightarrow> string list \<Rightarrow> int \<Rightarrow> int \<Rightarrow> exn + string list" where
  "filter_segments fl lines start_seconds end_seconds =
     (case for_loop fl start_seconds end_seconds
             \<lparr>total_time = PyInt 0, inside_range = False, result = [], add_start = True\<rparr> lines of
        Inl e \<Rightarrow> Inl e
      | Inr st \<Rightarrow> Inr (result st))"

section \<open>\<open>write_output\<close> and \<open>parse_m3u8\<close>\<close>

text \<open>
  What the program does to the outside is a trace of events, and the files it leaves.
  \<open>http w url\<close> is the outcome of \<open>requests.get(url, timeout=10)\<close> followed by
  \<open>raise_for_status\<close>: the text of the response, or \<open>Inl\<close> the \<open>RequestException\<close>
  as printed. \<open>writable w path\<close> says whether \<open>open(path, "w")\<close> succeeds.
\<close>

datatype event = HttpGet string | Print string | FileWrite string

record world =
  http :: "string \<Rightarrow> string + string"
  writable :: "string \<Rightarrow> bool"
  files :: "string \<Rightarrow> string option"
  trace :: "event list"

definition end_list :: string where
  "end_list = ''#EXT-X-ENDLIST''"

definition write_output :: "world \<Rightarrow> string \<Rightarrow> string list \<Rightarrow> string \<Rightarrow> (exn + unit) \<times> world" where
  "write_output w output_file filtered_segments base_url =
     (if \<not> writable w output_file then (Inl (OSError output_file), w)
      else
        let written = foldl (\<lambda>out line.
                         if str_endswith line ''.ts''
                         then out @ (base_url @ ''/'' @ line @ [CHR 0x0A])
                         else out @ (line @ [CHR 0x0A])) [] filtered_segments;
            output = written @ (end_list @ [CHR 0x0A]);
            w1 = w\<lparr>files := (files w)(output_file \<mapsto> output),
                   trace := trace w @ [FileWrite output_file]\<rparr>
        in (Inr (), w1\<lparr>trace := trace w1 @ [Print (''New m3u8 file saved as '' @ output_file)]\<rparr>))"

text \<open>\<open>str.splitlines()\<close>: the line boundaries below 256; \<open>\r\n\<close> is one boundary.\<close>

definition line_boundary :: "char \<Rightarrow> bool" where
  "line_boundary c \<longleftrightarrow>
     c \<in> set [CHR 0x0A, CHR 0x0B, CHR 0x0C, CHR 0x0D, CHR 0x1C, CHR 0x1D, CHR 0x1E, CHR 0x85]"

fun splitlines_from :: "string \<Rightarrow> string \<Rightarrow> string list" where
  "splitlines_from cur [] = (if cur = [] then [] else [cur])"
| "splitlines_from cur [c] = (if line_boundary c then [cur] else [cur @ [c]])"
| "splitlines_from cur (c # d # cs) =
     (if c = CHR 0x0D \<and> d = CHR 0x0A then cur # splitlines_from [] cs
      else if line_boundary c then cur # splitlines_from [] (d # cs)
      else splitlines_from (cur @ [c]) (d # cs))"

definition str_splitlines :: "string \<Rightarrow> string list" where
  "str_splitlines s = splitlines_from [] s"

text \<open>
  \<open>urljoin\<close> is library code: \<open>urljoin_dot url\<close> stands for \<open>urljoin(url, ".")\<close>. The
  request comes first; the two times are parsed and compared after it.
\<close>

definition parse_m3u8 ::
  "'f float_ops \<Rightarrow> (string \<Rightarrow> string) \<Rightarrow> world \<Rightarrow> string \<Rightarrow> string \<Rightarrow> string \<Rightarrow> string
     \<Rightarrow> (exn + unit) \<times> world" where
  "parse_m3u8 fl urljoin_dot w url start_time end_time output_file =
     (let w1 = w\<lparr>trace := trace w @ [HttpGet url]\<rparr> in
      case http w url of
        Inl e \<Rightarrow>
          (Inr (), w1\<lparr>trace := trace w1 @
                     [Print (''Failed to download m3u8 file from '' @ url @ '': '' @ e)]\<rparr>)
      | Inr text \<Rightarrow>
          (let lines = str_splitlines text;
               base_url = urljoin_dot url
           in (case time_to_seconds start_time of
                 Inl e \<Rightarrow> (Inl e, w1)
               | Inr start_seconds \<Rightarrow>
                   (case time_to_seconds end_time of
                      Inl e \<Rightarrow> (Inl e, w1)
                    | Inr end_seconds \<Rightarrow>
                        (if start_seconds \<ge> end_seconds
                         then (Inl (ValueError ''Start time must be before end time.''), w1)
                         else (case filter_segments fl lines start_seconds end_seconds of
                                 Inl e \<Rightarrow> (Inl e, w1)
                               | Inr filtered_segments \<Rightarrow>
                                   write_output w1 output_file filtered_segments base_url))))))"

section \<open>The vocabulary of the specification\<close>

text \<open>
  A duration-annotation line is a line that, stripped, starts with \<open>#EXTINF\<close>; a
  segment-reference line is a line that, stripped, ends in \<open>.ts\<close>. The header is what
  precedes the first duration line.
\<close>

definition duration_line :: "string \<Rightarrow> bool" where
  "duration_line raw \<longleftrightarrow> str_startswith (str_strip raw) ''#EXTINF''"

definition reference_line :: "string \<Rightarrow> bool" where
  "reference_line raw \<longleftrightarrow> str_endswith (str_strip raw) ''.ts''"

definition header :: "string list \<Rightarrow> string list" where
  "header lines = takeWhile (\<lambda>raw. \<not> duration_line raw) lines"

text \<open>All duration lines carry a duration that \<open>float\<close> reads.\<close>

definition well_formed :: "'f float_ops \<Rightarrow> string list \<Rightarrow> bool" where
  "well_formed fl lines \<longleftrightarrow>
     list_all (\<lambda>raw. duration_line raw \<longrightarrow> \<not> isl (extinf_duration fl (str_strip raw))) lines"

text \<open>
  The durations of the duration lines of a stretch of the playlist, in order, and their
  sum as the program forms it: from the left, starting at \<open>t\<close>.
\<close>

definition durations :: "'f float_ops \<Rightarrow> string list \<Rightarrow> 'f list" where
  "durations fl lines =
     concat (map (\<lambda>raw. if duration_line raw
                         then (case extinf_duration fl (str_strip raw) of
                                 Inl e \<Rightarrow> [] | Inr d \<Rightarrow> [d])
                         else []) lines)"

definition elapsed_from :: "'f float_ops \<Rightarrow> 'f number \<Rightarrow> string list \<Rightarrow> 'f number" where
  "elapsed_from fl t lines = foldl (num_add fl) t (durations fl lines)"

definition elapsed :: "'f float_ops \<Rightarrow> string list \<Rightarrow> 'f number" where
  "elapsed fl lines = elapsed_from fl (PyInt 0) lines"

text \<open>
  Line \<open>i\<close> is a duration line, and the segment it announces starts at or after \<open>n\<close>
  seconds: the durations of all earlier segments sum to \<open>n\<close> or more.
\<close>

definition start_ge_from :: "'f float_ops \<Rightarrow> 'f number \<Rightarrow> int \<Rightarrow> string list \<Rightarrow> nat \<Rightarrow> bool" where
  "start_ge_from fl t n lines i \<longleftrightarrow>
     i < length lines \<and> duration_line (lines ! i) \<and>
     num_ge fl (elapsed_from fl t (take i lines)) n"

definition start_ge :: "'f float_ops \<Rightarrow> int \<Rightarrow> string list \<Rightarrow> nat \<Rightarrow> bool" where
  "start_ge fl n lines i \<longleftrightarrow> start_ge_from fl (PyInt 0) n lines i"

text \<open>\<open>a\<close> is the first such line, or the length of the playlist when there is none.\<close>

definition first_start_ge_from ::
  "'f float_ops \<Rightarrow> 'f number \<Rightarrow> int \<Rightarrow> string list \<Rightarrow> nat \<Rightarrow> bool" where
  "first_start_ge_from fl t n lines a \<longleftrightarrow>
     (a = length lines \<or> start_ge_from fl t n lines a) \<and>
     list_all (\<lambda>j. \<not> start_ge_from fl t n lines j) [0..<a]"

definition first_start_ge :: "'f float_ops \<Rightarrow> int \<Rightarrow> string list \<Rightarrow> nat \<Rightarrow> bool" where
  "first_start_ge fl n lines a \<longleftrightarrow> first_start_ge_from fl (PyInt 0) n lines a"

text \<open>
  What a line inside the range adds to the result: itself when it is a duration line, and
  itself (again) when it is a reference line.
\<close>

definition kept_copies :: "string \<Rightarrow> string list" where
  "kept_copies raw =
     (if duration_line raw then [str_strip raw] else []) @
     (if reference_line raw then [str_strip raw] else [])"

definition kept_block :: "string list \<Rightarrow> nat \<Rightarrow> nat \<Rightarrow> string list" where
  "kept_block lines a b = concat (map kept_copies (drop a (take b lines)))"

section \<open>A stand-in for binary floating point\<close>

text \<open>
  To run the filter on a concrete playlist the float operations must be given. This
  instance reads plain decimal literals (sign, digits, at most one point) and computes
  with rationals. It is used below only on literals and sums that are whole numbers of
  small size, where binary64 is exact as well.
\<close>

definition digits_value :: "string \<Rightarrow> nat" where
  "digits_value ds = foldl (\<lambda>n c. n * 10 + digit_val c) 0 ds"

definition decimal_literal :: "string \<Rightarrow> rat option" where
  "decimal_literal s =
     (let neg = (s \<noteq> [] \<and> hd s = CHR ''-'');
          body = (if neg then tl s else s);
          ip = takeWhile is_digit body;
          rest = dropWhile is_digit body;
          fp = (if rest \<noteq> [] \<and> hd rest = CHR ''.'' then tl rest else [])
      in if (ip = [] \<and> fp = []) \<or> (rest \<noteq> [] \<and> hd rest \<noteq> CHR ''.'') \<or> \<not> list_all is_digit fp
         then None
         else let v = of_nat (digits_value (ip @ fp)) / of_nat (10 ^ length fp)
              in Some (if neg then - v else v))"

definition decimal_ops :: "rat float_ops" where
  "decimal_ops =
     \<lparr>py_float = decimal_literal, float_of_int = of_int, float_add = (+),
      float_ge_int = (\<lambda>x n. of_int n \<le> x)\<rparr>"

text \<open>
  What binary64 guarantees on whole numbers up to \<open>2 ^ 53\<close>: the conversion, the sum and
  the comparison with an \<open>int\<close> are exact.
\<close>

definition exact_on_small_ints :: "'f float_ops \<Rightarrow> bool" where
  "exact_on_small_ints fl \<longleftrightarrow>
     (\<forall>a b. \<bar>a\<bar> \<le> 2 ^ 53 \<and> \<bar>b\<bar> \<le> 2 ^ 53 \<and> \<bar>a + b\<bar> \<le> 2 ^ 53 \<longrightarrow>
        float_add fl (float_of_int fl a) (float_of_int fl b) = float_of_int fl (a + b)) \<and>
     (\<forall>a n. \<bar>a\<bar> \<le> 2 ^ 53 \<longrightarrow> float_ge_int fl (float_of_int fl a) n = (n \<le> a))"

text \<open>The value of a number of the stand-in.\<close>

definition num_val :: "rat number \<Rightarrow> rat" where
  "num_val t = (case t of PyInt a \<Rightarrow> of_int a | PyFloat x \<Rightarrow> x)"

section \<open>Examples\<close>

text \<open>
  The playlist of the scenario: a header of two lines, four segments of ten seconds each,
  and the end-of-list line of the source playlist.
\<close>

definition playlist4 :: "string list" where
  "playlist4 =
     [''#EXTM3U'', ''#EXT-X-TARGETDURATION:10'',
      ''#EXTINF:10.0,'', ''seg1.ts'', ''#EXTINF:10.0,'', ''seg2.ts'',
      ''#EXTINF:10.0,'', ''seg3.ts'', ''#EXTINF:10.0,'', ''seg4.ts'', ''#EXT-X-ENDLIST'']"

text \<open>A playlist whose lines carry blanks at their ends.\<close>

definition padded :: "string list" where
  "padded = [''  #EXTM3U '', ''#EXT-X-VERSION:3  '', '' #EXTINF:4.0,'', ''a.ts  '']"

text \<open>A filtered list: a header line and one segment.\<close>

definition kept3 :: "string list" where
  "kept3 = [''#EXTM3U'', ''#EXTINF:10.0,'', ''seg3.ts'']"

text \<open>A playlist whose last segment has duration zero.\<close>

definition zero_tail :: "string list" where
  "zero_tail = [''#EXTM3U'', ''#EXTINF:10.0,'', ''a.ts'', ''#EXTINF:0.0,'', ''b.ts'']"

text \<open>A world where every request succeeds, and one where every request fails.\<close>

definition online :: world where
  "online = \<lparr>http = (\<lambda>url. Inr ''#EXTM3U''), writable = (\<lambda>path. True),
             files = (\<lambda>path. None), trace = []\<rparr>"

definition offline :: world where
  "offline = \<lparr>http = (\<lambda>url. Inl ''404 Client Error''), writable = (\<lambda>path. True),
              files = (\<lambda>path. None), trace = []\<rparr>"

section \<open>Properties of \<open>time_to_seconds\<close>\<close>

lemma unpack3_Inr: "unpack3 xs = Inr (a, b, c) \<Longrightarrow> xs = [Inr a, Inr b, Inr c]"
  by (induction xs rule: unpack3.induct) auto

lemma py_int_exn: "py_int s = Inl e \<Longrightarrow> \<exists>msg. e = ValueError msg"
  by (auto simp: py_int_def Let_def split: option.splits if_splits)

lemma unpack3_exn:
  "unpack3 xs = Inl e \<Longrightarrow>
   (\<And>x e'. x \<in> set xs \<Longrightarrow> x = Inl e' \<Longrightarrow> \<exists>msg. e' = ValueError msg) \<Longrightarrow>
   \<exists>msg. e = ValueError msg"
  by (induction xs rule: unpack3.induct) auto

lemma str_split_nonempty [simp]: "str_split sep t \<noteq> []"
  by (induction t) (auto split: list.splits)

lemma str_split_Cons:
  "str_split sep t = w # ws \<Longrightarrow>
     sep \<notin> set w \<and> (ws = [] \<longrightarrow> t = w) \<and>
     (ws \<noteq> [] \<longrightarrow> (\<exists>rest. t = w @ sep # rest \<and> str_split sep rest = ws))"
  by (induction t arbitrary: w ws) (auto split: if_splits list.splits)

lemma str_split_nosep: "sep \<notin> set w \<Longrightarrow> str_split sep w = [w]"
  by (induction w) auto

lemma str_split_append: "sep \<notin> set w \<Longrightarrow> str_split sep (w @ sep # rest) = w # str_split sep rest"
  by (induction w) (auto split: list.splits)

lemma str_split_three:
  "str_split sep t = [h, m, s] \<Longrightarrow>
     t = h @ sep # m @ sep # s \<and> sep \<notin> set h \<and> sep \<notin> set m \<and> sep \<notin> set s"
  using str_split_Cons[of sep t h "[m, s]"]
  by (metis list.distinct(1) str_split_Cons)

lemma time_to_seconds_exn:
  "time_to_seconds t = Inl err \<Longrightarrow> err = ValueError ''Invalid time format. Use hh:mm:ss.''"
proof -
  assume a: "time_to_seconds t = Inl err"
  let ?xs = "map py_int (str_split CHR '':'' t)"
  show ?thesis
  proof (cases "unpack3 ?xs")
    case (Inl e)
    have "\<exists>msg. e = ValueError msg"
      using unpack3_exn[OF Inl] py_int_exn by (metis (no_types, lifting) imageE list.set_map)
    with Inl a show ?thesis by (auto simp: time_to_seconds_def)
  next
    case (Inr r)
    with a show ?thesis by (auto simp: time_to_seconds_def split: prod.splits)
  qed
qed

text \<open>
  Claim C5. A string \<open>h:m:s\<close> whose three components (none containing a colon) are read
  by \<open>int\<close> as \<open>a\<close>, \<open>b\<close>, \<open>c\<close> gives \<open>a * 3600 + b * 60 + c\<close>; every string that
  is not of this form gives the format error.
\<close>

theorem time_to_seconds_format:
  "(\<forall>h m s a b c.
      CHR '':'' \<notin> set h \<union> set m \<union> set s \<and>
      py_int h = Inr a \<and> py_int m = Inr b \<and> py_int s = Inr c \<longrightarrow>
      time_to_seconds (h @ CHR '':'' # m @ CHR '':'' # s) = Inr (a * 3600 + b * 60 + c)) \<and>
   (\<forall>t.
      \<not> (\<exists>h m s a b c.
           t = h @ CHR '':'' # m @ CHR '':'' # s \<and> CHR '':'' \<notin> set h \<union> set m \<union> set s \<and>
           py_int h = Inr a \<and> py_int m = Inr b \<and> py_int s = Inr c) \<longrightarrow>
      time_to_seconds t = Inl (ValueError ''Invalid time format. Use hh:mm:ss.''))"
proof (intro conjI allI impI)
  fix h m s a b c
  assume h: "CHR '':'' \<notin> set h \<union> set m \<union> set s \<and>
      py_int h = Inr a \<and> py_int m = Inr b \<and> py_int s = Inr c"
  then have "str_split CHR '':'' (h @ CHR '':'' # m @ CHR '':'' # s) = [h, m, s]"
    by (simp add: str_split_append str_split_nosep)
  with h show "time_to_seconds (h @ CHR '':'' # m @ CHR '':'' # s) = Inr (a * 3600 + b * 60 + c)"
    by (simp add: time_to_seconds_def)
next
  fix t
  assume no: "\<not> (\<exists>h m s a b c.
           t = h @ CHR '':'' # m @ CHR '':'' # s \<and> CHR '':'' \<notin> set h \<union> set m \<union> set s \<and>
           py_int h = Inr a \<and> py_int m = Inr b \<and> py_int s = Inr c)"
  let ?xs = "map py_int (str_split CHR '':'' t)"
  show "time_to_seconds t = Inl (ValueError ''Invalid time format. Use hh:mm:ss.'')"
  proof (cases "unpack3 ?xs")
    case (Inl e)
    have "\<exists>msg. e = ValueError msg"
      using unpack3_exn[OF Inl] py_int_exn by (metis (no_types, lifting) imageE list.set_map)
    with Inl show ?thesis by (auto simp: time_to_seconds_def)
  next
    case (Inr r)
    obtain a b c where r: "r = (a, b, c)" by (cases r)
    from Inr r have xs: "?xs = [Inr a, Inr b, Inr c]" by (simp add: unpack3_Inr)
    then obtain h m s where sp: "str_split CHR '':'' t = [h, m, s]"
      and "py_int h = Inr a" "py_int m = Inr b" "py_int s = Inr c"
      by (auto simp: map_eq_Cons_conv)
    with str_split_three[OF sp] no show ?thesis by blast
  qed
qed

theorem time_to_seconds_format_witness:
  "time_to_seconds ''01:02:03'' = Inr 3723 \<and>
   time_to_seconds ''1:2'' = Inl (ValueError ''Invalid time format. Use hh:mm:ss.'')"
proof -
  have p: "py_int ''01'' = Inr 1" "py_int ''02'' = Inr 2" "py_int ''03'' = Inr 3"
    by code_simp+
  have "\<not> (\<exists>h m s a b c.
           ''1:2'' = h @ CHR '':'' # m @ CHR '':'' # s \<and> CHR '':'' \<notin> set h \<union> set m \<union> set s \<and>
           py_int h = Inr a \<and> py_int m = Inr b \<and> py_int s = Inr c)"
  proof
    assume "\<exists>h m s a b c.
           ''1:2'' = h @ CHR '':'' # m @ CHR '':'' # s \<and> CHR '':'' \<notin> set h \<union> set m \<union> set s \<and>
           py_int h = Inr a \<and> py_int m = Inr b \<and> py_int s = Inr c"
    then obtain h m s where "''1:2'' = h @ CHR '':'' # m @ CHR '':'' # s" by blast
    then have "length (filter (\<lambda>c. c = CHR '':'') ''1:2'') =
               length (filter (\<lambda>c. c = CHR '':'') (h @ CHR '':'' # m @ CHR '':'' # s))"
      by simp
    then show False by simp
  qed
  with time_to_seconds_format p show ?thesis
    using conjunct1[OF time_to_seconds_format, rule_format, of "''01''" "''02''" "''03''" 1 2 3]
          conjunct2[OF time_to_seconds_format, rule_format, of "''1:2''"]
    by simp
qed

text \<open>
  Claim C10. A negative component is accepted: \<open>"00:00:-5"\<close> gives \<open>-5\<close>, not the
  format error.
\<close>

theorem time_to_seconds_negative: "time_to_seconds ''00:00:-5'' = Inr (- 5)"
  by code_simp

section \<open>The loop of \<open>filter_segments\<close>\<close>

lemma durations_Nil [simp]: "durations fl [] = []"
  by (simp add: durations_def)

lemma durations_append [simp]: "durations fl (xs @ ys) = durations fl xs @ durations fl ys"
  by (simp add: durations_def)

lemma durations_Cons:
  "durations fl (x # xs) =
     (if duration_line x
      then (case extinf_duration fl (str_strip x) of Inl e \<Rightarrow> [] | Inr d \<Rightarrow> [d])
      else []) @ durations fl xs"
  by (simp add: durations_def)

lemma elapsed_from_Nil [simp]: "elapsed_from fl t [] = t"
  by (simp add: elapsed_from_def)

lemma elapsed_from_append: "elapsed_from fl t (xs @ ys) = elapsed_from fl (elapsed_from fl t xs) ys"
  by (simp add: elapsed_from_def)

lemma elapsed_from_Cons: "elapsed_from fl t (x # xs) = elapsed_from fl (elapsed_from fl t [x]) xs"
  using elapsed_from_append[of fl t "[x]" xs] by simp

lemma elapsed_from_single:
  "elapsed_from fl t [x] =
     (if duration_line x
      then (case extinf_duration fl (str_strip x) of Inl e \<Rightarrow> t | Inr d \<Rightarrow> num_add fl t d)
      else t)"
  by (simp add: elapsed_from_def durations_def split: sum.splits)

lemma start_ge_from_0: "start_ge_from fl t n (x # xs) 0 \<longleftrightarrow> duration_line x \<and> num_ge fl t n"
  by (simp add: start_ge_from_def)

lemma start_ge_from_Suc:
  "start_ge_from fl t n (x # xs) (Suc i) \<longleftrightarrow> start_ge_from fl (elapsed_from fl t [x]) n xs i"
  by (simp add: start_ge_from_def elapsed_from_Cons[of fl t x "take i xs"])

text \<open>One iteration, by the kind of line and the state of the scan.\<close>

declare for_loop.simps(2) [simp del]

lemma loop_other:
  "\<not> duration_line raw \<Longrightarrow>
   for_loop fl s e st (raw # rest) = for_loop fl s e (body_end st (str_strip raw)) rest"
  by (simp add: duration_line_def for_loop.simps(2))

lemma loop_raise:
  "duration_line raw \<Longrightarrow> extinf_duration fl (str_strip raw) = Inl err \<Longrightarrow>
   for_loop fl s e st (raw # rest) = Inl err"
  by (simp add: duration_line_def for_loop.simps(2))

lemma loop_break:
  "duration_line raw \<Longrightarrow> extinf_duration fl (str_strip raw) = Inr d \<Longrightarrow>
   num_ge fl (total_time st) e \<Longrightarrow>
   for_loop fl s e st (raw # rest) =
     Inr (st\<lparr>add_start := False, inside_range := inside_range st \<or> num_ge fl (total_time st) s\<rparr>)"
  by (cases st) (simp add: for_loop.simps(2) duration_line_def Let_def)

lemma loop_next:
  "duration_line raw \<Longrightarrow> extinf_duration fl (str_strip raw) = Inr d \<Longrightarrow>
   \<not> num_ge fl (total_time st) e \<Longrightarrow>
   for_loop fl s e st (raw # rest) =
     for_loop fl s e
       (st\<lparr>add_start := False,
           inside_range := inside_range st \<or> num_ge fl (total_time st) s,
           total_time := num_add fl (total_time st) d,
           result := result st @
             (if inside_range st \<or> num_ge fl (total_time st) s then kept_copies raw else [])\<rparr>) rest"
  by (cases st) (simp add: for_loop.simps(2) duration_line_def Let_def body_end_def kept_copies_def reference_line_def)

lemma loop_other_out:
  "\<not> duration_line raw \<Longrightarrow> \<not> inside_range st \<Longrightarrow>
   for_loop fl s e st (raw # rest) =
     for_loop fl s e (st\<lparr>result := result st @ (if add_start st then [str_strip raw] else [])\<rparr>) rest"
  by (cases st) (simp add: for_loop.simps(2) duration_line_def body_end_def Let_def)

lemma loop_other_in:
  "\<not> duration_line raw \<Longrightarrow> inside_range st \<Longrightarrow> \<not> add_start st \<Longrightarrow>
   for_loop fl s e st (raw # rest) =
     for_loop fl s e (st\<lparr>result := result st @ kept_copies raw\<rparr>) rest"
  by (cases st) (simp add: for_loop.simps(2) duration_line_def body_end_def Let_def kept_copies_def reference_line_def)

lemma body_end_total [simp]: "total_time (body_end st line) = total_time st"
  by (simp add: body_end_def Let_def)

text \<open>An exception of the filter is the failed duration parse of some duration line.\<close>

lemma for_loop_raises:
  "for_loop fl s e st ls = Inl err \<Longrightarrow>
   \<exists>raw\<in>set ls. duration_line raw \<and> extinf_duration fl (str_strip raw) = Inl err"
proof (induction ls arbitrary: st)
  case Nil
  then show ?case by simp
next
  case (Cons x xs)
  show ?case
  proof (cases "duration_line x")
    case False
    with Cons show ?thesis by (auto simp: loop_other)
  next
    case True
    show ?thesis
    proof (cases "extinf_duration fl (str_strip x)")
      case (Inl e')
      with True Cons.prems show ?thesis by (auto simp: loop_raise)
    next
      case (Inr d)
      show ?thesis
      proof (cases "num_ge fl (total_time st) e")
        case True
        with \<open>duration_line x\<close> Inr Cons.prems show ?thesis by (simp add: loop_break)
      next
        case False
        with \<open>duration_line x\<close> Inr Cons show ?thesis by (auto simp: loop_next)
      qed
    qed
  qed
qed

lemma filter_segments_raises:
  "filter_segments fl lines s e = Inl err \<Longrightarrow>
   \<exists>raw\<in>set lines. duration_line raw \<and> extinf_duration fl (str_strip raw) = Inl err"
  by (auto simp: filter_segments_def split: sum.splits dest: for_loop_raises)

lemma filter_segments_returns:
  assumes "well_formed fl lines"
  shows "\<exists>res. filter_segments fl lines s e = Inr res"
proof (cases "filter_segments fl lines s e")
  case (Inl err)
  from filter_segments_raises[OF this] assms show ?thesis
    by (auto simp: well_formed_def list_all_iff)
next
  case (Inr res)
  then show ?thesis by blast
qed

text \<open>The header, the kept block and the first line that starts at or after a bound.\<close>

lemma header_Nil [simp]: "header [] = []"
  by (simp add: header_def)

lemma header_Cons:
  "header (x # xs) = (if duration_line x then [] else x # header xs)"
  by (simp add: header_def)

lemma durations_header: "durations fl (header ls) = []"
  by (induction ls) (simp_all add: header_Cons durations_Cons)

lemma header_nth_duration:
  "length (header ls) < length ls \<Longrightarrow> duration_line (ls ! length (header ls))"
  by (induction ls) (auto simp: header_Cons split: if_splits)

lemma header_nth_other:
  "j < length (header ls) \<Longrightarrow> \<not> duration_line (ls ! j)"
proof (induction ls arbitrary: j)
  case Nil
  then show ?case by (simp add: header_def)
next
  case (Cons x xs)
  then show ?case by (cases j) (simp_all add: header_Cons split: if_splits)
qed

lemma header_take: "take (length (header ls)) ls = header ls"
  by (induction ls) (simp_all add: header_Cons)

lemma header_length_le: "length (header ls) \<le> length ls"
  by (induction ls) (simp_all add: header_Cons)

lemma kept_block_Nil [simp]: "kept_block [] a b = []"
  by (simp add: kept_block_def)

lemma kept_block_stop [simp]: "kept_block ls a 0 = []"
  by (simp add: kept_block_def)

lemma kept_block_Suc_Suc [simp]: "kept_block (x # xs) (Suc a) (Suc b) = kept_block xs a b"
  by (simp add: kept_block_def)

lemma kept_block_0_Suc [simp]: "kept_block (x # xs) 0 (Suc b) = kept_copies x @ kept_block xs 0 b"
  by (simp add: kept_block_def)

lemma kept_block_first:
  assumes "a < b" "a < length lines" "duration_line (lines ! a)"
  shows "\<exists>more. kept_block lines a b = str_strip (lines ! a) # more"
proof -
  have "drop a (take b lines) = lines ! a # drop (Suc a) (take b lines)"
    using assms(1,2) by (simp add: Cons_nth_drop_Suc[symmetric])
  with assms(3) show ?thesis by (simp add: kept_block_def kept_copies_def)
qed

lemma kept_block_all:
  "kept_block lines (length (header lines)) (length lines) =
     concat (map kept_copies (dropWhile (\<lambda>raw. \<not> duration_line raw) lines))"
  by (simp add: kept_block_def header_def dropWhile_eq_drop)

lemma first_Nil: "first_start_ge_from fl t n [] a \<longleftrightarrow> a = 0"
  by (auto simp: first_start_ge_from_def start_ge_from_def)

lemma first_Cons_0:
  "first_start_ge_from fl t n (x # xs) 0 \<longleftrightarrow> duration_line x \<and> num_ge fl t n"
  by (simp add: first_start_ge_from_def start_ge_from_0)

lemma first_unfold:
  "first_start_ge_from fl t n ls a \<longleftrightarrow>
     (a = length ls \<or> start_ge_from fl t n ls a) \<and> (\<forall>j<a. \<not> start_ge_from fl t n ls j)"
  by (auto simp: first_start_ge_from_def list_all_iff)

lemma first_Cons_Suc:
  "first_start_ge_from fl t n (x # xs) (Suc a) \<longleftrightarrow>
     \<not> (duration_line x \<and> num_ge fl t n) \<and>
     first_start_ge_from fl (elapsed_from fl t [x]) n xs a"
proof -
  have "(\<forall>j<Suc a. \<not> start_ge_from fl t n (x # xs) j) \<longleftrightarrow>
        \<not> (duration_line x \<and> num_ge fl t n) \<and>
        (\<forall>j<a. \<not> start_ge_from fl (elapsed_from fl t [x]) n xs j)"
    by (simp only: All_less_Suc2 start_ge_from_0 start_ge_from_Suc)
  then show ?thesis
    by (simp only: first_unfold start_ge_from_Suc length_Cons nat.inject) blast
qed

lemma first_ex: "\<exists>a. first_start_ge_from fl t n ls a"
proof (induction ls arbitrary: t)
  case Nil
  show ?case by (simp add: first_Nil)
next
  case (Cons x xs)
  show ?case
  proof (cases "duration_line x \<and> num_ge fl t n")
    case True
    then have "first_start_ge_from fl t n (x # xs) 0" by (simp add: first_Cons_0)
    then show ?thesis ..
  next
    case False
    from Cons[of "elapsed_from fl t [x]"] obtain a
      where "first_start_ge_from fl (elapsed_from fl t [x]) n xs a" ..
    with False have "first_start_ge_from fl t n (x # xs) (Suc a)" by (simp add: first_Cons_Suc)
    then show ?thesis ..
  qed
qed

lemma first_le_length: "first_start_ge_from fl t n ls a \<Longrightarrow> a \<le> length ls"
  by (auto simp: first_start_ge_from_def start_ge_from_def)

lemma header_first: "first_start_ge fl 0 lines (length (header lines))"
proof -
  let ?a = "length (header lines)"
  have "?a = length lines \<or> start_ge_from fl (PyInt 0) 0 lines ?a"
  proof (cases "?a < length lines")
    case True
    with header_nth_duration[OF True] show ?thesis
      by (simp add: start_ge_from_def header_take elapsed_from_def durations_header)
  next
    case False
    with header_length_le[of lines] show ?thesis by simp
  qed
  moreover have "\<forall>j<?a. \<not> start_ge_from fl (PyInt 0) 0 lines j"
    using header_nth_other[of _ lines] by (simp add: start_ge_from_def)
  ultimately show ?thesis by (simp only: first_start_ge_def first_unfold)
qed

text \<open>
  The result of the scan: the header, then what the lines from the first segment that
  starts at or after \<open>s\<close> up to the first that starts at or after \<open>e\<close> add.
\<close>

lemma inside_phase:
  assumes "inside_range st" "\<not> add_start st"
    and "first_start_ge_from fl (total_time st) e ls b"
    and "for_loop fl s e st ls = Inr st'"
  shows "result st' = result st @ kept_block ls 0 b"
  using assms
proof (induction ls arbitrary: st b)
  case Nil
  then show ?case by simp
next
  case (Cons x xs)
  show ?case
  proof (cases "duration_line x")
    case False
    from Cons.prems(3) False obtain b' where b: "b = Suc b'"
      by (cases b) (auto simp: first_Cons_0)
    from Cons.prems(3) False have f: "first_start_ge_from fl (total_time st) e xs b'"
      by (simp add: b first_Cons_Suc elapsed_from_single)
    let ?st1 = "st\<lparr>result := result st @ kept_copies x\<rparr>"
    from Cons.prems False have "for_loop fl s e ?st1 xs = Inr st'"
      by (simp add: loop_other_in)
    from Cons.IH[of ?st1 b', OF _ _ _ this] Cons.prems(1,2) f
    show ?thesis by (simp add: b)
  next
    case True
    show ?thesis
    proof (cases "extinf_duration fl (str_strip x)")
      case (Inl err)
      with True Cons.prems(4) show ?thesis by (simp add: loop_raise)
    next
      case (Inr d)
      show ?thesis
      proof (cases "num_ge fl (total_time st) e")
        case ge: True
        with True Cons.prems(3) have "b = 0"
          by (cases b) (auto simp: first_Cons_Suc)
        with Cons.prems(4) show ?thesis
          by (auto simp: loop_break[OF True Inr ge])
      next
        case nge: False
        from Cons.prems(3) True nge obtain b' where b: "b = Suc b'"
          by (cases b) (auto simp: first_Cons_0)
        from Cons.prems(3) True Inr
        have f: "first_start_ge_from fl (num_add fl (total_time st) d) e xs b'"
          by (simp add: b first_Cons_Suc elapsed_from_single)
        let ?st1 = "st\<lparr>add_start := False, inside_range := True,
           total_time := num_add fl (total_time st) d,
           result := result st @ kept_copies x\<rparr>"
        from Cons.prems(1,4) have "for_loop fl s e ?st1 xs = Inr st'"
          by (simp add: loop_next[OF True Inr nge])
        from Cons.IH[of ?st1 b', OF _ _ _ this] f
        show ?thesis by (simp add: b)
      qed
    qed
  qed
qed

lemma outside_phase:
  assumes "\<not> inside_range st"
    and "first_start_ge_from fl (total_time st) s ls a"
    and "first_start_ge_from fl (total_time st) e ls b"
    and "for_loop fl s e st ls = Inr st'"
  shows "result st' =
           result st @ (if add_start st then map str_strip (header ls) else []) @ kept_block ls a b"
  using assms
proof (induction ls arbitrary: st a b)
  case Nil
  then show ?case by (simp add: header_def)
next
  case (Cons x xs)
  show ?case
  proof (cases "duration_line x")
    case False
    from Cons.prems(2) False obtain a' where a: "a = Suc a'"
      by (cases a) (auto simp: first_Cons_0)
    from Cons.prems(3) False obtain b' where b: "b = Suc b'"
      by (cases b) (auto simp: first_Cons_0)
    from Cons.prems(2) False have fa: "first_start_ge_from fl (total_time st) s xs a'"
      by (simp add: a first_Cons_Suc elapsed_from_single)
    from Cons.prems(3) False have fb: "first_start_ge_from fl (total_time st) e xs b'"
      by (simp add: b first_Cons_Suc elapsed_from_single)
    let ?st1 = "st\<lparr>result := result st @ (if add_start st then [str_strip x] else [])\<rparr>"
    from Cons.prems(1,4) False have "for_loop fl s e ?st1 xs = Inr st'"
      by (simp add: loop_other_out)
    from Cons.IH[of ?st1 a' b', OF _ _ _ this] Cons.prems(1) fa fb False
    show ?thesis by (simp add: a b header_Cons)
  next
    case True
    show ?thesis
    proof (cases "extinf_duration fl (str_strip x)")
      case (Inl err)
      with True Cons.prems(4) show ?thesis by (simp add: loop_raise)
    next
      case (Inr d)
      show ?thesis
      proof (cases "num_ge fl (total_time st) e")
        case ge: True
        with True Cons.prems(3) have "b = 0"
          by (cases b) (auto simp: first_Cons_Suc)
        with Cons.prems(4) True show ?thesis
          by (auto simp: loop_break[OF True Inr ge] header_Cons)
      next
        case nge: False
        from Cons.prems(3) True nge obtain b' where b: "b = Suc b'"
          by (cases b) (auto simp: first_Cons_0)
        from Cons.prems(3) True Inr
        have fb: "first_start_ge_from fl (num_add fl (total_time st) d) e xs b'"
          by (simp add: b first_Cons_Suc elapsed_from_single)
        show ?thesis
        proof (cases "num_ge fl (total_time st) s")
          case gs: True
          with True Cons.prems(2) have a: "a = 0"
            by (cases a) (auto simp: first_Cons_Suc)
          let ?st1 = "st\<lparr>add_start := False, inside_range := True,
             total_time := num_add fl (total_time st) d,
             result := result st @ kept_copies x\<rparr>"
          from Cons.prems(4) gs have "for_loop fl s e ?st1 xs = Inr st'"
            by (simp add: loop_next[OF True Inr nge])
          from inside_phase[of ?st1 fl e xs b' s st', OF _ _ _ this] fb
          show ?thesis using True by (simp add: a b header_Cons)
        next
          case ngs: False
          from Cons.prems(2) True ngs obtain a' where a: "a = Suc a'"
            by (cases a) (auto simp: first_Cons_0)
          from Cons.prems(2) True Inr
          have fa: "first_start_ge_from fl (num_add fl (total_time st) d) s xs a'"
            by (simp add: a first_Cons_Suc elapsed_from_single)
          let ?st1 = "st\<lparr>add_start := False, inside_range := False,
             total_time := num_add fl (total_time st) d\<rparr>"
          from Cons.prems(1,4) ngs have "for_loop fl s e ?st1 xs = Inr st'"
            by (simp add: loop_next[OF True Inr nge])
          from Cons.IH[of ?st1 a' b', OF _ _ _ this] fa fb
          show ?thesis using True by (simp add: a b header_Cons)
        qed
      qed
    qed
  qed
qed

lemma filter_segments_char:
  assumes "first_start_ge fl s lines a" "first_start_ge fl e lines b"
    and "filter_segments fl lines s e = Inr res"
  shows "res = map str_strip (header lines) @ kept_block lines a b"
proof -
  let ?st0 = "\<lparr>total_time = PyInt 0, inside_range = False, result = [], add_start = True\<rparr> :: 'a locals"
  from assms(3) obtain st' where run: "for_loop fl s e ?st0 lines = Inr st'" and res: "res = result st'"
    by (auto simp: filter_segments_def split: sum.splits)
  from outside_phase[of ?st0 fl s lines a e b st', OF _ _ _ run] assms(1,2)
  show ?thesis by (simp add: res first_start_ge_def)
qed

text \<open>A duration line that starts at or after \<open>e\<close> ends the scan.\<close>

lemma for_loop_stops:
  assumes "start_ge_from fl (total_time st) e ls i"
    and "extinf_duration fl (str_strip (ls ! i)) = Inr d"
  shows "map_sum id result (for_loop fl s e st ls) =
         map_sum id result (for_loop fl s e st (take i ls))"
  using assms
proof (induction ls arbitrary: st i)
  case Nil
  then show ?case by (simp add: start_ge_from_def)
next
  case (Cons x xs)
  show ?case
  proof (cases i)
    case 0
    with Cons.prems have dl: "duration_line x" and ge: "num_ge fl (total_time st) e"
      and dx: "extinf_duration fl (str_strip x) = Inr d"
      by (simp_all add: start_ge_from_0)
    show ?thesis by (simp add: 0 loop_break[OF dl dx ge])
  next
    case (Suc i')
    from Cons.prems(1) have st: "start_ge_from fl (elapsed_from fl (total_time st) [x]) e xs i'"
      by (simp add: Suc start_ge_from_Suc)
    from Cons.prems(2) have d: "extinf_duration fl (str_strip (xs ! i')) = Inr d"
      by (simp add: Suc)
    show ?thesis
    proof (cases "duration_line x")
      case False
      with st have "start_ge_from fl (total_time (body_end st (str_strip x))) e xs i'"
        by (simp add: elapsed_from_single)
      from Cons.IH[OF this d] False show ?thesis
        by (simp add: Suc loop_other)
    next
      case True
      show ?thesis
      proof (cases "extinf_duration fl (str_strip x)")
        case (Inl err)
        with True show ?thesis by (simp add: Suc loop_raise)
      next
        case (Inr dx)
        show ?thesis
        proof (cases "num_ge fl (total_time st) e")
          case ge: True
          show ?thesis by (simp add: Suc loop_break[OF True Inr ge])
        next
          case nge: False
          let ?st1 = "st\<lparr>add_start := False,
             inside_range := inside_range st \<or> num_ge fl (total_time st) s,
             total_time := num_add fl (total_time st) dx,
             result := result st @
               (if inside_range st \<or> num_ge fl (total_time st) s then kept_copies x else [])\<rparr>"
          from st True Inr have "start_ge_from fl (total_time ?st1) e xs i'"
            by (simp add: elapsed_from_single)
          from Cons.IH[OF this d] show ?thesis
            by (simp add: Suc loop_next[OF True Inr nge])
        qed
      qed
    qed
  qed
qed

section \<open>Properties of \<open>filter_segments\<close>\<close>

text \<open>
  Claim C2. The check against \<open>start_seconds\<close> uses the time before the duration of the
  current segment is added. Let \<open>a\<close> be the first duration line whose segment starts at or
  after \<open>s\<close> (the length of the playlist when there is none). When the filter returns,
  its result is the header followed by what the lines from \<open>a\<close> up to the line \<open>b\<close> where
  the scan stops add; when the scan has not stopped by line \<open>a\<close>, line \<open>a\<close> is the first
  line kept after the header. When the filter raises, a duration line failed to parse.
\<close>

theorem first_kept_segment:
  assumes "first_start_ge fl s lines a"
  shows "case filter_segments fl lines s e of
           Inl err \<Rightarrow>
             (\<exists>raw\<in>set lines. duration_line raw \<and> extinf_duration fl (str_strip raw) = Inl err)
         | Inr res \<Rightarrow>
             (\<exists>b. first_start_ge fl e lines b \<and>
                  res = map str_strip (header lines) @ kept_block lines a b \<and>
                  (a < b \<longrightarrow>
                     (\<exists>more. res = map str_strip (header lines) @ str_strip (lines ! a) # more)))"
proof (cases "filter_segments fl lines s e")
  case (Inl err)
  with filter_segments_raises[OF Inl] show ?thesis by simp
next
  case (Inr res)
  obtain b where b: "first_start_ge fl e lines b"
    using first_ex[of fl "PyInt 0" e lines] by (auto simp: first_start_ge_def)
  have eq: "res = map str_strip (header lines) @ kept_block lines a b"
    by (rule filter_segments_char[OF assms b Inr])
  have "\<exists>more. res = map str_strip (header lines) @ str_strip (lines ! a) # more" if "a < b"
  proof -
    from b have "b \<le> length lines"
      by (simp add: first_start_ge_def first_le_length)
    with that have al: "a < length lines" by simp
    with assms have "duration_line (lines ! a)"
      by (auto simp: first_start_ge_def first_unfold start_ge_from_def)
    from kept_block_first[OF that al this] eq show ?thesis by auto
  qed
  with b eq Inr show ?thesis by auto
qed

theorem first_kept_segment_witness:
  "first_start_ge decimal_ops 15 playlist4 6 \<and>
   (\<exists>b. first_start_ge decimal_ops 25 playlist4 b \<and>
        [''#EXTM3U'', ''#EXT-X-TARGETDURATION:10'', ''#EXTINF:10.0,'', ''seg3.ts''] =
          map str_strip (header playlist4) @ kept_block playlist4 6 b \<and>
        (6 < b \<longrightarrow>
           (\<exists>more. [''#EXTM3U'', ''#EXT-X-TARGETDURATION:10'', ''#EXTINF:10.0,'', ''seg3.ts''] =
                map str_strip (header playlist4) @ str_strip (playlist4 ! 6) # more)))"
proof -
  have h: "first_start_ge decimal_ops 15 playlist4 6" by code_simp
  have r: "filter_segments decimal_ops playlist4 15 25 =
     Inr [''#EXTM3U'', ''#EXT-X-TARGETDURATION:10'', ''#EXTINF:10.0,'', ''seg3.ts'']"
    by code_simp
  from first_kept_segment[OF h, where e = 25] h show ?thesis
    by (simp only: r sum.case)
qed

text \<open>
  Claim C3. At a duration line whose duration parses and whose segment starts at or after
  \<open>end_seconds\<close> the scan stops: the outcome is that of the lines before it alone, so
  neither this line nor any later line adds to the result.
\<close>

theorem scan_stops_at_end:
  assumes "start_ge fl e lines i"
    and "extinf_duration fl (str_strip (lines ! i)) = Inr d"
  shows "filter_segments fl lines s e = filter_segments fl (take i lines) s e"
proof -
  let ?st0 = "\<lparr>total_time = PyInt 0, inside_range = False, result = [], add_start = True\<rparr>
                :: 'a locals"
  have "start_ge_from fl (total_time ?st0) e lines i"
    using assms(1) by (simp add: start_ge_def)
  from for_loop_stops[OF this assms(2), of s]
  show ?thesis
    by (simp add: filter_segments_def map_sum_def split: sum.splits)
qed

theorem scan_stops_at_end_witness:
  "start_ge decimal_ops 25 playlist4 8 \<and>
   extinf_duration decimal_ops (str_strip (playlist4 ! 8)) = Inr 10 \<and>
   filter_segments decimal_ops playlist4 15 25 =
     filter_segments decimal_ops (take 8 playlist4) 15 25"
proof -
  have h: "start_ge decimal_ops 25 playlist4 8" by code_simp
  have d: "extinf_duration decimal_ops (str_strip (playlist4 ! 8)) = Inr 10" by code_simp
  from scan_stops_at_end[OF h d, of 15] h d show ?thesis by simp
qed

text \<open>
  Claim C6. Whatever the window, the result starts with the stripped lines that precede
  the first duration line; the filter raises only the failed duration parse of some
  duration line.
\<close>

theorem header_kept:
  "case filter_segments fl lines s e of
     Inl err \<Rightarrow>
       (\<exists>raw\<in>set lines. duration_line raw \<and> extinf_duration fl (str_strip raw) = Inl err)
   | Inr res \<Rightarrow> (\<exists>kept. res = map str_strip (header lines) @ kept)"
proof (cases "filter_segments fl lines s e")
  case (Inl err)
  with filter_segments_raises[OF Inl] show ?thesis by simp
next
  case (Inr res)
  obtain a where a: "first_start_ge fl s lines a"
    using first_ex[of fl "PyInt 0" s lines] by (auto simp: first_start_ge_def)
  obtain b where b: "first_start_ge fl e lines b"
    using first_ex[of fl "PyInt 0" e lines] by (auto simp: first_start_ge_def)
  from filter_segments_char[OF a b Inr] Inr show ?thesis by simp
qed

theorem header_kept_witness:
  "\<exists>kept. [''#EXTM3U'', ''#EXT-X-VERSION:3'', ''#EXTINF:4.0,'', ''a.ts''] =
      map str_strip (header padded) @ kept"
proof -
  have r: "filter_segments decimal_ops padded 0 5 =
     Inr [''#EXTM3U'', ''#EXT-X-VERSION:3'', ''#EXTINF:4.0,'', ''a.ts'']"
    by code_simp
  from header_kept[where fl = decimal_ops and lines = padded and s = 0 and e = 5] show ?thesis
    by (simp only: r sum.case)
qed

text \<open>The flag \<open>inside_range\<close> is never reset.\<close>

lemma inside_range_stays:
  "for_loop fl s e st ls = Inr st' \<Longrightarrow> inside_range st \<Longrightarrow> inside_range st'"
proof (induction ls arbitrary: st)
  case Nil
  then show ?case by simp
next
  case (Cons x xs)
  show ?case
  proof (cases "duration_line x")
    case False
    with Cons.prems have "for_loop fl s e (body_end st (str_strip x)) xs = Inr st'"
      by (simp add: loop_other)
    moreover have "inside_range (body_end st (str_strip x))"
      using Cons.prems(2) by (simp add: body_end_def Let_def)
    ultimately show ?thesis by (rule Cons.IH)
  next
    case True
    show ?thesis
    proof (cases "extinf_duration fl (str_strip x)")
      case (Inl err)
      with True Cons.prems show ?thesis by (simp add: loop_raise)
    next
      case (Inr d)
      show ?thesis
      proof (cases "num_ge fl (total_time st) e")
        case ge: True
        from Cons.prems show ?thesis by (auto simp: loop_break[OF True Inr ge])
      next
        case nge: False
        from Cons.prems(1)[unfolded loop_next[OF True Inr nge]] Cons.prems(2)
        show ?thesis by (auto intro: Cons.IH)
      qed
    qed
  qed
qed

text \<open>
  Claim C9. The segments kept are contiguous: after the header, the result is what one
  block of consecutive lines adds, a block that starts at a duration line and ends before
  a duration line or with the playlist.
\<close>

theorem kept_contiguous:
  "case filter_segments fl lines s e of
     Inl err \<Rightarrow>
       (\<exists>raw\<in>set lines. duration_line raw \<and> extinf_duration fl (str_strip raw) = Inl err)
   | Inr res \<Rightarrow>
       (\<exists>a b. a \<le> length lines \<and> b \<le> length lines \<and>
          (a < length lines \<longrightarrow> duration_line (lines ! a)) \<and>
          (b < length lines \<longrightarrow> duration_line (lines ! b)) \<and>
          res = map str_strip (header lines) @ kept_block lines a b)"
proof (cases "filter_segments fl lines s e")
  case (Inl err)
  with filter_segments_raises[OF Inl] show ?thesis by simp
next
  case (Inr res)
  obtain a where a: "first_start_ge fl s lines a"
    using first_ex[of fl "PyInt 0" s lines] by (auto simp: first_start_ge_def)
  obtain b where b: "first_start_ge fl e lines b"
    using first_ex[of fl "PyInt 0" e lines] by (auto simp: first_start_ge_def)
  have "a \<le> length lines" "b \<le> length lines"
    using a b by (simp_all add: first_start_ge_def first_le_length)
  moreover have "a < length lines \<longrightarrow> duration_line (lines ! a)"
    using a by (auto simp: first_start_ge_def first_unfold start_ge_from_def)
  moreover have "b < length lines \<longrightarrow> duration_line (lines ! b)"
    using b by (auto simp: first_start_ge_def first_unfold start_ge_from_def)
  moreover note filter_segments_char[OF a b Inr]
  ultimately show ?thesis using Inr by auto
qed

theorem kept_contiguous_witness:
  "\<exists>a b. a \<le> length playlist4 \<and> b \<le> length playlist4 \<and>
      (a < length playlist4 \<longrightarrow> duration_line (playlist4 ! a)) \<and>
      (b < length playlist4 \<longrightarrow> duration_line (playlist4 ! b)) \<and>
      [''#EXTM3U'', ''#EXT-X-TARGETDURATION:10'', ''#EXTINF:10.0,'', ''seg2.ts'',
       ''#EXTINF:10.0,'', ''seg3.ts''] =
        map str_strip (header playlist4) @ kept_block playlist4 a b"
proof -
  have r: "filter_segments decimal_ops playlist4 5 25 =
     Inr [''#EXTM3U'', ''#EXT-X-TARGETDURATION:10'', ''#EXTINF:10.0,'', ''seg2.ts'',
          ''#EXTINF:10.0,'', ''seg3.ts'']"
    by code_simp
  from kept_contiguous[where fl = decimal_ops and lines = playlist4 and s = 5 and e = 25] show ?thesis
    by (simp only: r sum.case)
qed

text \<open>
  Claim C4. Four segments of ten seconds and the window from 15 to 25: the header and
  the third segment (its duration line and its reference line) are kept, nothing else.
  The float operations are any that are exact on small whole numbers and read
  \<open>"10.0"\<close> as ten.
\<close>

theorem four_segments_window:
  assumes "exact_on_small_ints fl" and "py_float fl ''10.0'' = Some (float_of_int fl 10)"
  shows "filter_segments fl playlist4 15 25 =
           Inr [''#EXTM3U'', ''#EXT-X-TARGETDURATION:10'', ''#EXTINF:10.0,'', ''seg3.ts'']"
proof -
  let ?f = "float_of_int fl"
  from assms(1) have exact_add:
    "\<forall>a b. \<bar>a\<bar> \<le> 2 ^ 53 \<and> \<bar>b\<bar> \<le> 2 ^ 53 \<and> \<bar>a + b\<bar> \<le> 2 ^ 53 \<longrightarrow>
        float_add fl (?f a) (?f b) = ?f (a + b)"
    and exact_ge: "\<forall>a n. \<bar>a\<bar> \<le> 2 ^ 53 \<longrightarrow> float_ge_int fl (?f a) n = (n \<le> a)"
    by (simp_all add: exact_on_small_ints_def)
  have add: "float_add fl (?f a) (?f 10) = ?f (a + 10)" if "0 \<le> a" "a \<le> 100" for a
    using exact_add[rule_format, of a 10] that by simp
  have ge: "float_ge_int fl (?f a) n = (n \<le> a)" if "0 \<le> a" "a \<le> 100" for a n
    using exact_ge[rule_format, of a n] that by simp
  have d: "extinf_duration fl ''#EXTINF:10.0,'' = Inr (?f 10)"
    by (simp add: extinf_duration_def str_rstrip_def Let_def assms(2))
  have dl: "duration_line ''#EXTINF:10.0,''" by code_simp
  have other: "\<not> duration_line ''#EXTM3U''" "\<not> duration_line ''#EXT-X-TARGETDURATION:10''"
    "\<not> duration_line ''seg1.ts''" "\<not> duration_line ''seg2.ts''"
    "\<not> duration_line ''seg3.ts''" "\<not> duration_line ''seg4.ts''"
    by code_simp+
  have strip: "str_strip ''#EXTM3U'' = ''#EXTM3U''"
    "str_strip ''#EXT-X-TARGETDURATION:10'' = ''#EXT-X-TARGETDURATION:10''"
    "str_strip ''#EXTINF:10.0,'' = ''#EXTINF:10.0,''"
    "str_strip ''seg1.ts'' = ''seg1.ts''" "str_strip ''seg2.ts'' = ''seg2.ts''"
    "str_strip ''seg3.ts'' = ''seg3.ts''" "str_strip ''seg4.ts'' = ''seg4.ts''"
    by code_simp+
  have kept: "kept_copies ''#EXTINF:10.0,'' = [''#EXTINF:10.0,'']"
    "kept_copies ''seg3.ts'' = [''seg3.ts'']"
    by code_simp+
  have d': "extinf_duration fl (str_strip ''#EXTINF:10.0,'') = Inr (?f 10)"
    by (simp only: strip d)
  have a10: "float_add fl (?f 0) (?f 10) = ?f 10" using add[of 0] by simp
  have a20: "float_add fl (?f 10) (?f 10) = ?f 20" using add[of 10] by simp
  have a30: "float_add fl (?f 20) (?f 10) = ?f 30" using add[of 20] by simp
  have cmp: "\<not> float_ge_int fl (?f 10) 15" "\<not> float_ge_int fl (?f 10) 25"
    "float_ge_int fl (?f 20) 15" "\<not> float_ge_int fl (?f 20) 25"
    "float_ge_int fl (?f 30) 25"
    by (simp_all add: ge)
  note step = loop_other_out loop_other_in loop_next[OF dl d'] loop_break[OF dl d']
  show ?thesis
    by (simp add: filter_segments_def playlist4_def step other strip kept a10 a20 a30 cmp)
qed

theorem four_segments_window_witness:
  "exact_on_small_ints decimal_ops \<and> py_float decimal_ops ''10.0'' = Some (float_of_int decimal_ops 10) \<and>
   filter_segments decimal_ops playlist4 15 25 =
     Inr [''#EXTM3U'', ''#EXT-X-TARGETDURATION:10'', ''#EXTINF:10.0,'', ''seg3.ts'']"
proof -
  have h1: "exact_on_small_ints decimal_ops"
    by (simp add: exact_on_small_ints_def decimal_ops_def)
  have h2: "py_float decimal_ops ''10.0'' = Some (float_of_int decimal_ops 10)"
    by code_simp
  from four_segments_window[OF h1 h2] h1 h2 show ?thesis by simp
qed

section \<open>Properties of \<open>write_output\<close>\<close>

lemma written_fold:
  "foldl (\<lambda>out line. if str_endswith line ''.ts''
                      then out @ (base_url @ ''/'' @ line @ [CHR 0x0A])
                      else out @ (line @ [CHR 0x0A])) acc segs =
   acc @ concat (map (\<lambda>line. (if str_endswith line ''.ts''
                                  then base_url @ ''/'' @ line else line) @ [CHR 0x0A]) segs)"
  by (induction segs arbitrary: acc) simp_all

lemma written_fold_Nil:
  "foldl (\<lambda>out line. if str_endswith line ''.ts''
                      then out @ (base_url @ ''/'' @ line @ [CHR 0x0A])
                      else out @ (line @ [CHR 0x0A])) [] segs =
   concat (map (\<lambda>l. l @ [CHR 0x0A])
     (map (\<lambda>line. if str_endswith line ''.ts'' then base_url @ ''/'' @ line else line) segs))"
proof -
  have "(\<lambda>l. l @ [CHR 0x0A]) \<circ>
          (\<lambda>line. if str_endswith line ''.ts'' then base_url @ ''/'' @ line else line) =
        (\<lambda>line. (if str_endswith line ''.ts''
                  then base_url @ ''/'' @ line else line) @ [CHR 0x0A])"
    by (rule ext) simp
  then show ?thesis
    by (simp only: written_fold[of base_url "[]" segs] map_map append_Nil)
qed

text \<open>
  Claim C7. When the output file can be opened, \<open>write_output\<close> leaves in it one line
  for each line of the list, in the order of the list: a line that ends in \<open>.ts\<close> as
  \<open>base_url + "/" + line\<close>, never as it was, every other line unchanged; one line
  \<open>#EXT-X-ENDLIST\<close> follows them. No other file changes.
\<close>

theorem write_output_lines:
  assumes "writable w output_file"
  shows "fst (write_output w output_file segs base_url) = Inr () \<and>
         (\<forall>path. path \<noteq> output_file \<longrightarrow>
            files (snd (write_output w output_file segs base_url)) path = files w path) \<and>
         (\<exists>out. length out = length segs \<and>
            files (snd (write_output w output_file segs base_url)) output_file =
              Some (concat (map (\<lambda>l. l @ [CHR 0x0A]) (out @ [''#EXT-X-ENDLIST'']))) \<and>
            (\<forall>i<length segs.
               if str_endswith (segs ! i) ''.ts''
               then out ! i = base_url @ ''/'' @ segs ! i \<and> out ! i \<noteq> segs ! i
               else out ! i = segs ! i))"
proof -
  let ?line = "\<lambda>l. if str_endswith l ''.ts'' then base_url @ ''/'' @ l else l"
  let ?out = "map ?line segs"
  have "files (snd (write_output w output_file segs base_url)) output_file =
          Some (concat (map (\<lambda>l. l @ [CHR 0x0A]) (?out @ [''#EXT-X-ENDLIST''])))"
    using assms
    by (simp only: write_output_def Let_def end_list_def written_fold_Nil) simp
  moreover have "\<forall>i<length segs.
               if str_endswith (segs ! i) ''.ts''
               then ?out ! i = base_url @ ''/'' @ segs ! i \<and> ?out ! i \<noteq> segs ! i
               else ?out ! i = segs ! i"
    by simp
  moreover have "length ?out = length segs" by simp
  moreover have "fst (write_output w output_file segs base_url) = Inr ()"
    using assms by (simp add: write_output_def Let_def)
  moreover have "\<forall>path. path \<noteq> output_file \<longrightarrow>
            files (snd (write_output w output_file segs base_url)) path = files w path"
    using assms by (simp add: write_output_def Let_def)
  ultimately show ?thesis by blast
qed

theorem write_output_lines_witness:
  "writable online ''out.m3u8'' \<and>
   files (snd (write_output online ''out.m3u8'' kept3 ''http://host/dir'')) ''out.m3u8'' =
     Some (concat (map (\<lambda>l. l @ [CHR 0x0A])
       [''#EXTM3U'', ''#EXTINF:10.0,'', ''http://host/dir/seg3.ts'', ''#EXT-X-ENDLIST'']))"
proof -
  let ?w = "snd (write_output online ''out.m3u8'' kept3 ''http://host/dir'')"
  have h: "writable online ''out.m3u8''" by (simp add: online_def)
  have len: "length kept3 = 3" by (simp add: kept3_def)
  have ts: "\<not> str_endswith (kept3 ! 0) ''.ts''" "\<not> str_endswith (kept3 ! 1) ''.ts''"
    "str_endswith (kept3 ! 2) ''.ts''"
    by code_simp+
  have nth: "kept3 ! 0 = ''#EXTM3U''" "kept3 ! Suc 0 = ''#EXTINF:10.0,''"
    "kept3 ! 2 = ''seg3.ts''"
    by (simp_all add: kept3_def)
  from write_output_lines[OF h, of kept3 "''http://host/dir''"]
  obtain out where l: "length out = 3"
    and f: "files ?w ''out.m3u8'' =
              Some (concat (map (\<lambda>l. l @ [CHR 0x0A]) (out @ [''#EXT-X-ENDLIST''])))"
    and a: "\<forall>i<3. if str_endswith (kept3 ! i) ''.ts''
                  then out ! i = ''http://host/dir'' @ ''/'' @ kept3 ! i \<and> out ! i \<noteq> kept3 ! i
                  else out ! i = kept3 ! i"
    unfolding len by blast
  from a[rule_format, of 0] a[rule_format, of 1] a[rule_format, of 2] ts
  have o: "out ! 0 = ''#EXTM3U''" "out ! 1 = ''#EXTINF:10.0,''"
    "out ! 2 = ''http://host/dir/seg3.ts''"
    by (simp_all add: nth)
  have "out = [''#EXTM3U'', ''#EXTINF:10.0,'', ''http://host/dir/seg3.ts'']"
  proof (rule nth_equalityI)
    show "length out = length [''#EXTM3U'', ''#EXTINF:10.0,'', ''http://host/dir/seg3.ts'']"
      using l by simp
  next
    fix i assume "i < length out"
    with l have "i = 0 \<or> i = 1 \<or> i = 2" by arith
    then show "out ! i = [''#EXTM3U'', ''#EXTINF:10.0,'', ''http://host/dir/seg3.ts''] ! i"
      using o by (elim disjE) (simp_all only: nth_Cons_0 nth_Cons_numeral One_nat_def
          nth_Cons_Suc numeral_2_eq_2 diff_Suc_Suc diff_zero)
  qed
  with f h show ?thesis by simp
qed

section \<open>A window that covers the whole playlist\<close>

text \<open>
  With the exact arithmetic of the stand-in, every segment starts before \<open>e\<close> when no
  duration is negative and \<open>e\<close> exceeds the total, and when every duration is positive
  and \<open>e\<close> is the total or more.
\<close>

lemma num_val_add: "num_val (num_add decimal_ops t d) = num_val t + d"
  by (cases t) (simp_all add: num_val_def decimal_ops_def)

lemma num_ge_decimal: "num_ge decimal_ops t n \<longleftrightarrow> of_int n \<le> num_val t"
  by (cases t) (simp_all add: num_val_def decimal_ops_def)

lemma num_val_foldl: "num_val (foldl (num_add decimal_ops) t ds) = num_val t + sum_list ds"
  by (induction ds arbitrary: t) (simp_all add: num_val_add)

lemma num_val_elapsed:
  "num_val (elapsed_from decimal_ops t ls) = num_val t + sum_list (durations decimal_ops ls)"
  by (simp add: elapsed_from_def num_val_foldl)

lemma elapsed_take_le:
  assumes "\<forall>d\<in>set (durations decimal_ops lines). 0 \<le> d"
  shows "num_val (elapsed decimal_ops (take i lines)) \<le> num_val (elapsed decimal_ops lines)"
proof -
  have "durations decimal_ops lines =
        durations decimal_ops (take i lines) @ durations decimal_ops (drop i lines)"
    by (metis append_take_drop_id durations_append)
  moreover from this assms have "0 \<le> sum_list (durations decimal_ops (drop i lines))"
    by (auto intro!: sum_list_nonneg)
  ultimately show ?thesis by (simp add: elapsed_def num_val_elapsed)
qed

lemma window_beyond_total:
  assumes "\<forall>d\<in>set (durations decimal_ops lines). 0 \<le> d"
    and "num_val (elapsed decimal_ops lines) < of_int e"
  shows "first_start_ge decimal_ops e lines (length lines)"
proof -
  have "\<not> start_ge_from decimal_ops (PyInt 0) e lines j" for j
    using elapsed_take_le[OF assms(1), of j] assms(2)
    by (simp add: start_ge_from_def num_ge_decimal elapsed_def)
  then show ?thesis by (simp add: first_start_ge_def first_unfold)
qed

lemma elapsed_take_less:
  assumes "\<forall>d\<in>set (durations decimal_ops lines). 0 < d"
    and "i < length lines" "duration_line (lines ! i)"
    and "extinf_duration decimal_ops (str_strip (lines ! i)) = Inr d"
  shows "num_val (elapsed decimal_ops (take i lines)) < num_val (elapsed decimal_ops lines)"
proof -
  have split: "lines = take i lines @ lines ! i # drop (Suc i) lines"
    using assms(2) by (simp add: id_take_nth_drop)
  have ds: "durations decimal_ops lines =
        durations decimal_ops (take i lines) @ d # durations decimal_ops (drop (Suc i) lines)"
    using assms(3,4) durations_append[of decimal_ops "take i lines" "lines ! i # drop (Suc i) lines"]
    by (simp add: split[symmetric] durations_Cons)
  with assms(1) have "0 < d" "\<forall>x\<in>set (durations decimal_ops (drop (Suc i) lines)). 0 \<le> x"
    by (auto intro: less_imp_le)
  then have "0 < d + sum_list (durations decimal_ops (drop (Suc i) lines))"
    by (meson add_pos_nonneg sum_list_nonneg)
  with ds show ?thesis by (simp add: elapsed_def num_val_elapsed)
qed

lemma window_to_total:
  assumes "well_formed decimal_ops lines"
    and "\<forall>d\<in>set (durations decimal_ops lines). 0 < d"
    and "num_val (elapsed decimal_ops lines) \<le> of_int e"
  shows "first_start_ge decimal_ops e lines (length lines)"
proof -
  have "\<not> start_ge_from decimal_ops (PyInt 0) e lines j" for j
  proof
    assume s: "start_ge_from decimal_ops (PyInt 0) e lines j"
    then have j: "j < length lines" "duration_line (lines ! j)"
      and ge: "of_int e \<le> num_val (elapsed decimal_ops (take j lines))"
      by (simp_all add: start_ge_from_def num_ge_decimal elapsed_def)
    from assms(1) j obtain d where "extinf_duration decimal_ops (str_strip (lines ! j)) = Inr d"
      by (cases "extinf_duration decimal_ops (str_strip (lines ! j))")
         (auto simp: well_formed_def list_all_length)
    from elapsed_take_less[OF assms(2) j this] ge assms(3) show False by simp
  qed
  then show ?thesis by (simp add: first_start_ge_def first_unfold)
qed

text \<open>
  Claim C8, as stated, fails: with durations 10 and 0 the total is 10, the window from 0
  to 10 covers it, and the second segment is dropped, since it starts at 10.
\<close>

theorem whole_window_counterexample:
  "elapsed decimal_ops zero_tail = PyFloat 10 \<and>
   filter_segments decimal_ops
     zero_tail 0 10 =
     Inr [''#EXTM3U'', ''#EXTINF:10.0,'', ''a.ts'']"
  by code_simp

text \<open>
  Claim C8, amended. When every duration line parses and every segment starts before
  \<open>end_seconds\<close>, the window from 0 to \<open>end_seconds\<close> keeps the header and, from the first
  duration line on, every duration line and every reference line, in order; and what
  \<open>write_output\<close> writes for this result ends with the line \<open>#EXT-X-ENDLIST\<close>.
\<close>

theorem whole_window_keeps_all:
  assumes "well_formed fl lines" and "first_start_ge fl e lines (length lines)"
  shows "\<exists>res. filter_segments fl lines 0 e = Inr res \<and>
           res = map str_strip (header lines) @
                 concat (map kept_copies (dropWhile (\<lambda>raw. \<not> duration_line raw) lines)) \<and>
           (\<forall>w output_file base_url. writable w output_file \<longrightarrow>
              (\<exists>body. files (snd (write_output w output_file res base_url)) output_file =
                        Some (body @ ''#EXT-X-ENDLIST'' @ [CHR 0x0A])))"
proof -
  from filter_segments_returns[OF assms(1)] obtain res
    where res: "filter_segments fl lines 0 e = Inr res" ..
  from filter_segments_char[OF header_first assms(2) res]
  have "res = map str_strip (header lines) @
              concat (map kept_copies (dropWhile (\<lambda>raw. \<not> duration_line raw) lines))"
    by (simp add: kept_block_all)
  moreover have "\<exists>body. files (snd (write_output w output_file res base_url)) output_file =
                        Some (body @ ''#EXT-X-ENDLIST'' @ [CHR 0x0A])"
    if "writable w output_file" for w output_file base_url
    using that by (simp add: write_output_def Let_def end_list_def)
  ultimately show ?thesis using res by blast
qed

theorem whole_window_keeps_all_witness:
  "well_formed decimal_ops playlist4 \<and> first_start_ge decimal_ops 40 playlist4 (length playlist4) \<and>
   (\<exists>res. filter_segments decimal_ops playlist4 0 40 = Inr res \<and>
           res = map str_strip (header playlist4) @
                 concat (map kept_copies (dropWhile (\<lambda>raw. \<not> duration_line raw) playlist4)) \<and>
           (\<forall>w output_file base_url. writable w output_file \<longrightarrow>
              (\<exists>body. files (snd (write_output w output_file res base_url)) output_file =
                        Some (body @ ''#EXT-X-ENDLIST'' @ [CHR 0x0A]))))"
proof -
  have h1: "well_formed decimal_ops playlist4" by code_simp
  have h2: "first_start_ge decimal_ops 40 playlist4 (length playlist4)" by code_simp
  from whole_window_keeps_all[OF h1 h2] h1 h2 show ?thesis by blast
qed

section \<open>Properties of \<open>parse_m3u8\<close>\<close>

text \<open>
  Claim C1, as stated, fails: with start 10 and end 5 the range error is raised, but
  the request has been sent by then; and when the request fails no error is raised at all.
\<close>

theorem parse_m3u8_counterexample:
  "time_to_seconds ''00:00:10'' = Inr 10 \<and> time_to_seconds ''00:00:05'' = Inr 5 \<and>
   fst (parse_m3u8 decimal_ops (\<lambda>url. ''http://host/dir'') online ''http://host/dir/a.m3u8''
          ''00:00:10'' ''00:00:05'' ''out.m3u8'') =
     Inl (ValueError ''Start time must be before end time.'') \<and>
   trace (snd (parse_m3u8 decimal_ops (\<lambda>url. ''http://host/dir'') online ''http://host/dir/a.m3u8''
          ''00:00:10'' ''00:00:05'' ''out.m3u8'')) = [HttpGet ''http://host/dir/a.m3u8''] \<and>
   fst (parse_m3u8 decimal_ops (\<lambda>url. ''http://host/dir'') offline ''http://host/dir/a.m3u8''
          ''00:00:10'' ''00:00:05'' ''out.m3u8'') = Inr ()"
proof -
  have t1: "time_to_seconds ''00:00:10'' = Inr 10" by code_simp
  have t2: "time_to_seconds ''00:00:05'' = Inr 5" by code_simp
  show ?thesis
    by (simp add: parse_m3u8_def Let_def online_def offline_def t1 t2)
qed

text \<open>
  Claim C1, amended. When a time is malformed or the start is not before the end, no file
  is written. The request is sent first: when it succeeds, a \<open>ValueError\<close> is raised and
  the request is the only event; when it fails, the failure is printed and nothing is
  raised.
\<close>

theorem parse_m3u8_bad_times:
  assumes "isl (time_to_seconds start_time) \<or> isl (time_to_seconds end_time) \<or>
           (\<exists>a b. time_to_seconds start_time = Inr a \<and> time_to_seconds end_time = Inr b \<and> b \<le> a)"
  shows "files (snd (parse_m3u8 fl urljoin_dot w url start_time end_time output_file)) = files w \<and>
         (case http w url of
            Inr text \<Rightarrow>
              (\<exists>msg. fst (parse_m3u8 fl urljoin_dot w url start_time end_time output_file) =
                       Inl (ValueError msg)) \<and>
              trace (snd (parse_m3u8 fl urljoin_dot w url start_time end_time output_file)) =
                trace w @ [HttpGet url]
          | Inl reason \<Rightarrow>
              fst (parse_m3u8 fl urljoin_dot w url start_time end_time output_file) = Inr () \<and>
              trace (snd (parse_m3u8 fl urljoin_dot w url start_time end_time output_file)) =
                trace w @ [HttpGet url,
                           Print (''Failed to download m3u8 file from '' @ url @ '': '' @ reason)])"
proof (cases "http w url")
  case (Inl reason)
  then show ?thesis by (simp add: parse_m3u8_def Let_def)
next
  case (Inr body)
  show ?thesis
  proof (cases "time_to_seconds start_time")
    case (Inl e1)
    with time_to_seconds_exn[OF Inl] Inr show ?thesis
      by (simp add: parse_m3u8_def Let_def)
  next
    case s: (Inr a)
    show ?thesis
    proof (cases "time_to_seconds end_time")
      case (Inl e2)
      with time_to_seconds_exn[OF Inl] Inr s show ?thesis
        by (simp add: parse_m3u8_def Let_def)
    next
      case e: (Inr b)
      with assms s have "b \<le> a" by auto
      with Inr s e show ?thesis by (simp add: parse_m3u8_def Let_def)
    qed
  qed
qed

theorem parse_m3u8_bad_times_witness:
  "(\<exists>a b. time_to_seconds ''00:00:10'' = Inr a \<and> time_to_seconds ''00:00:05'' = Inr b \<and> b \<le> a) \<and>
   files (snd (parse_m3u8 decimal_ops (\<lambda>url. ''http://host/dir'') online ''http://host/dir/a.m3u8''
                 ''00:00:10'' ''00:00:05'' ''out.m3u8'')) = files online \<and>
   (\<exists>msg. fst (parse_m3u8 decimal_ops (\<lambda>url. ''http://host/dir'') online ''http://host/dir/a.m3u8''
                 ''00:00:10'' ''00:00:05'' ''out.m3u8'') = Inl (ValueError msg)) \<and>
   trace (snd (parse_m3u8 decimal_ops (\<lambda>url. ''http://host/dir'') online ''http://host/dir/a.m3u8''
                 ''00:00:10'' ''00:00:05'' ''out.m3u8'')) = [HttpGet ''http://host/dir/a.m3u8'']"
proof -
  have t1: "time_to_seconds ''00:00:10'' = Inr 10" by code_simp
  have t2: "time_to_seconds ''00:00:05'' = Inr 5" by code_simp
  have h: "isl (time_to_seconds ''00:00:10'') \<or> isl (time_to_seconds ''00:00:05'') \<or>
     (\<exists>a b. time_to_seconds ''00:00:10'' = Inr a \<and> time_to_seconds ''00:00:05'' = Inr b \<and> b \<le> a)"
    by (simp add: t1 t2)
  have w: "http online ''http://host/dir/a.m3u8'' = Inr ''#EXTM3U''" "trace online = []"
    by (simp_all add: online_def)
  from parse_m3u8_bad_times[OF h, of decimal_ops "\<lambda>url. ''http://host/dir''" online
      "''http://host/dir/a.m3u8''" "''out.m3u8''"]
  show ?thesis by (simp add: w t1 t2)
qed

end
